theory Spec2Isabelle
  imports Main
begin

section \<open>The signaling server: data model\<close>

text \<open>
  The model follows \<^verbatim>\<open>src/signaling_server/server.py\<close>, class
  \<^verbatim>\<open>SignalingServer\<close>. A frame is decoded by \<^verbatim>\<open>json.loads\<close>; the values it
  produces are modelled by \<open>json\<close>. Floating-point numbers are left out of the model
  (JSON numbers are the integers); an object is the association list of the resulting
  Python dict.
\<close>

datatype json =
    JNull
  | JBool bool
  | JInt int
  | JStr string
  | JArr "json list"
  | JObj "(string \<times> json) list"

text \<open>Python truthiness (\<^verbatim>\<open>not x\<close>) of a decoded value.\<close>

fun truthy :: "json \<Rightarrow> bool" where
  "truthy JNull = False"
| "truthy (JBool b) = b"
| "truthy (JInt n) = (n \<noteq> 0)"
| "truthy (JStr s) = (s \<noteq> [])"
| "truthy (JArr xs) = (xs \<noteq> [])"
| "truthy (JObj kvs) = (kvs \<noteq> [])"

text \<open>
  \<^verbatim>\<open>data.get(k)\<close> on a dict: the value, or \<^verbatim>\<open>None\<close> when the key is absent.
\<close>

definition dict_get :: "(string \<times> json) list \<Rightarrow> string \<Rightarrow> json" where
  "dict_get kvs k = (case map_of kvs k of None \<Rightarrow> JNull | Some v \<Rightarrow> v)"

text \<open>
  The registry \<^verbatim>\<open>self.rooms\<close> is a dict keyed by the room value. A dict key is
  hashed and compared with \<^verbatim>\<open>==\<close>: \<^verbatim>\<open>True\<close> and \<^verbatim>\<open>1\<close> are the same key, lists and
  dicts are unhashable (\<^verbatim>\<open>TypeError\<close>, here \<open>None\<close>).
\<close>

datatype key = KNone | KInt int | KStr string

fun dict_key :: "json \<Rightarrow> key option" where
  "dict_key JNull = Some KNone"
| "dict_key (JBool b) = Some (KInt (if b then 1 else 0))"
| "dict_key (JInt n) = Some (KInt n)"
| "dict_key (JStr s) = Some (KStr s)"
| "dict_key (JArr xs) = None"
| "dict_key (JObj kvs) = None"

text \<open>
  A connection is an opaque handle compared by identity. A room's member set is a
  Python \<^verbatim>\<open>set\<close>; it is modelled by a list without repetitions, whose order stands for
  the (unspecified) iteration order of \<^verbatim>\<open>list(self.rooms[room])\<close>:
  \<^verbatim>\<open>add\<close> is \<^const>\<open>List.insert\<close>, \<^verbatim>\<open>discard\<close> is \<^const>\<open>removeAll\<close>,
  \<^verbatim>\<open>len\<close> is \<^const>\<open>length\<close>.
\<close>

type_synonym conn = nat

type_synonym registry = "key \<rightharpoonup> conn list"

datatype exn = ConnectionClosed | JSONDecodeError | AttributeError | TypeError | KeyError

datatype control = Continue | Break | Raise exn

text \<open>
  One call of \<^verbatim>\<open>send\<close>: it either hands the envelope to the channel or raises
  \<^verbatim>\<open>ConnectionClosed\<close> because the channel is closed.
\<close>

datatype send_event = Sent conn json | SendFailed conn json

subsection \<open>Envelopes built by the server\<close>

definition error_envelope :: "string \<Rightarrow> json" where
  "error_envelope s = JObj [(''action'', JStr ''error''), (''error'', JStr s)]"

definition joined_envelope :: "json \<Rightarrow> nat \<Rightarrow> json" where
  "joined_envelope room n =
     JObj [(''action'', JStr ''joined''), (''room'', room), (''peers'', JInt (int n))]"

definition peer_joined_envelope :: "json \<Rightarrow> json" where
  "peer_joined_envelope room = JObj [(''action'', JStr ''peer_joined''), (''room'', room)]"

definition relayed_envelope :: "json \<Rightarrow> json \<Rightarrow> json" where
  "relayed_envelope room payload =
     JObj [(''action'', JStr ''relayed''), (''room'', room), (''payload'', payload)]"

definition peer_left_envelope :: "json \<Rightarrow> json" where
  "peer_left_envelope room = JObj [(''action'', JStr ''peer_left''), (''room'', room)]"

subsection \<open>Sending\<close>

text \<open>
  \<^verbatim>\<open>for peer in peers: await peer.send(m)\<close> without a handler around the send, as in the
  message loop: the first closed channel raises and the remaining peers are not tried.
  The result is the list of sends made and whether the loop ran to its end. The set
  \<open>closed\<close> holds the connections whose channel is closed.
\<close>

fun send_each :: "conn set \<Rightarrow> conn list \<Rightarrow> json \<Rightarrow> send_event list \<times> bool" where
  "send_each closed [] m = ([], True)"
| "send_each closed (p # ps) m =
     (if p \<in> closed then ([SendFailed p m], False)
      else (case send_each closed ps m of (t, ok) \<Rightarrow> (Sent p m # t, ok)))"

text \<open>
  The same loop with \<^verbatim>\<open>try: ... except: pass\<close> around each send, as in the
  \<^verbatim>\<open>finally\<close> block: a failure is dropped and the loop goes on.
\<close>

definition send_each_suppressed :: "conn set \<Rightarrow> conn list \<Rightarrow> json \<Rightarrow> send_event list" where
  "send_each_suppressed closed ps m =
     map (\<lambda>p. if p \<in> closed then SendFailed p m else Sent p m) ps"

text \<open>
  A reply to the client itself followed by \<^verbatim>\<open>continue\<close>; the registry and the
  handler's local \<^verbatim>\<open>room\<close> stay as they are at that point.
\<close>

definition reply_continue ::
  "conn set \<Rightarrow> registry \<Rightarrow> conn \<Rightarrow> json \<Rightarrow> json \<Rightarrow> registry \<times> json \<times> send_event list \<times> control" where
  "reply_continue closed rooms ws room m =
     (case send_each closed [ws] m of
        (t, ok) \<Rightarrow> (rooms, room, t, if ok then Continue else Raise ConnectionClosed))"

section \<open>The message loop of \<^verbatim>\<open>handle_client\<close>\<close>

text \<open>
  Each branch takes the set of closed channels, the registry, the handler's own
  connection and its local variable \<^verbatim>\<open>room\<close>, and returns the registry, the local
  \<^verbatim>\<open>room\<close>, the sends made and how the loop body ends.

  The \<^verbatim>\<open>join\<close> branch (lines 28 to 66). The local \<^verbatim>\<open>room\<close> is assigned from the
  envelope before anything is checked. The peers notified are the members right after
  the \<^verbatim>\<open>add\<close>; the source reads the member set again at line 61, after the joined
  send, and the two agree as long as no other handler changes this room during that
  send.
\<close>

definition handle_join ::
  "conn set \<Rightarrow> registry \<Rightarrow> conn \<Rightarrow> json \<Rightarrow> registry \<times> json \<times> send_event list \<times> control" where
  "handle_join closed rooms ws room =
     (if \<not> truthy room then reply_continue closed rooms ws room (error_envelope ''Missing room'')
      else case dict_key room of
        None \<Rightarrow> (rooms, room, [], Raise TypeError)
      | Some k \<Rightarrow>
          (let rooms1 = (if rooms k = None then rooms(k \<mapsto> []) else rooms) in
           case rooms1 k of
             None \<Rightarrow> (rooms1, room, [], Raise KeyError)
           | Some members \<Rightarrow>
               if length members \<ge> 2
               then reply_continue closed rooms1 ws room
                      (error_envelope ''Room is full (max 2 peers)'')
               else
                 (let members' = List.insert ws members;
                      rooms2 = rooms1(k \<mapsto> members');
                      peer_count = length members'
                  in case send_each closed [ws] (joined_envelope room peer_count) of
                       (t1, False) \<Rightarrow> (rooms2, room, t1, Raise ConnectionClosed)
                     | (t1, True) \<Rightarrow>
                         (case send_each closed (filter (\<lambda>peer. peer \<noteq> ws) members')
                                 (peer_joined_envelope room) of
                            (t2, ok) \<Rightarrow>
                              (rooms2, room, t1 @ t2,
                               if ok then Continue else Raise ConnectionClosed)))))"

text \<open>The \<^verbatim>\<open>relay\<close> branch (lines 68 to 91); \<open>data\<close> is the decoded envelope.\<close>

definition handle_relay ::
  "conn set \<Rightarrow> registry \<Rightarrow> conn \<Rightarrow> json \<Rightarrow> (string \<times> json) list
     \<Rightarrow> registry \<times> json \<times> send_event list \<times> control" where
  "handle_relay closed rooms ws room data =
     (if \<not> truthy room then reply_continue closed rooms ws room (error_envelope ''Not in a room'')
      else case dict_key room of
        None \<Rightarrow> (rooms, room, [], Raise TypeError)
      | Some k \<Rightarrow>
          (case rooms k of
             None \<Rightarrow> reply_continue closed rooms ws room (error_envelope ''Not in a room'')
           | Some members \<Rightarrow>
               (let payload = dict_get data ''payload'' in
                if \<not> truthy payload
                then reply_continue closed rooms ws room (error_envelope ''Missing payload'')
                else
                  (case send_each closed (filter (\<lambda>peer. peer \<noteq> ws) members)
                          (relayed_envelope room payload) of
                     (t, ok) \<Rightarrow>
                       (rooms, room, t, if ok then Continue else Raise ConnectionClosed)))))"

text \<open>The \<^verbatim>\<open>leave\<close> branch (lines 93 to 105); it always ends in \<^verbatim>\<open>break\<close>.\<close>

definition handle_leave ::
  "conn set \<Rightarrow> registry \<Rightarrow> conn \<Rightarrow> json \<Rightarrow> registry \<times> json \<times> send_event list \<times> control" where
  "handle_leave closed rooms ws room =
     (if \<not> truthy room then (rooms, room, [], Break)
      else case dict_key room of
        None \<Rightarrow> (rooms, room, [], Raise TypeError)
      | Some k \<Rightarrow>
          (case rooms k of
             None \<Rightarrow> (rooms, room, [], Break)
           | Some members \<Rightarrow>
               (let members' = removeAll ws members in
                if length members' = 0 then (rooms(k := None), room, [], Break)
                else
                  (case send_each closed members' (peer_left_envelope room) of
                     (t, ok) \<Rightarrow>
                       (rooms(k \<mapsto> members'), room, t,
                        if ok then Break else Raise ConnectionClosed)))))"

text \<open>
  The loop body (lines 25 to 105) on one frame. The frame is \<open>None\<close> when
  \<^verbatim>\<open>json.loads\<close> rejects it; a decoded value that is not an object has no
  \<^verbatim>\<open>get\<close>. An action other than the three matches no branch.
\<close>

definition handle_message ::
  "conn set \<Rightarrow> registry \<Rightarrow> conn \<Rightarrow> json \<Rightarrow> json option
     \<Rightarrow> registry \<times> json \<times> send_event list \<times> control" where
  "handle_message closed rooms ws room message =
     (case message of
        None \<Rightarrow> (rooms, room, [], Raise JSONDecodeError)
      | Some (JObj data) \<Rightarrow>
          (let action = dict_get data ''action'' in
           if action = JStr ''join'' then handle_join closed rooms ws (dict_get data ''room'')
           else if action = JStr ''relay'' then handle_relay closed rooms ws room data
           else if action = JStr ''leave'' then handle_leave closed rooms ws room
           else (rooms, room, [], Continue))
      | Some _ \<Rightarrow> (rooms, room, [], Raise AttributeError))"

text \<open>
  The \<^verbatim>\<open>finally\<close> block (lines 109 to 124). It runs when the channel closes, after
  \<^verbatim>\<open>break\<close> and after any exception. The last component is the exception it raises
  itself, if any.
\<close>

definition cleanup ::
  "conn set \<Rightarrow> registry \<Rightarrow> conn \<Rightarrow> json \<Rightarrow> registry \<times> send_event list \<times> exn option" where
  "cleanup closed rooms ws room =
     (if \<not> truthy room then (rooms, [], None)
      else case dict_key room of
        None \<Rightarrow> (rooms, [], Some TypeError)
      | Some k \<Rightarrow>
          (case rooms k of
             None \<Rightarrow> (rooms, [], None)
           | Some members \<Rightarrow>
               (let members' = removeAll ws members in
                if length members' = 0 then (rooms(k := None), [], None)
                else (rooms(k \<mapsto> members'),
                      send_each_suppressed closed members' (peer_left_envelope room), None))))"

text \<open>
  What the handler does with the next thing its channel yields: a frame (the loop body,
  followed by the \<^verbatim>\<open>finally\<close> block when the body leaves the loop) or the end of the
  stream (the \<^verbatim>\<open>finally\<close> block alone). The last component tells whether the handler
  has returned.
\<close>

datatype frame = Text "json option" | ChannelClosed

definition handle_frame ::
  "conn set \<Rightarrow> registry \<Rightarrow> conn \<Rightarrow> json \<Rightarrow> frame
     \<Rightarrow> registry \<times> json \<times> send_event list \<times> bool" where
  "handle_frame closed rooms ws room fr =
     (case fr of
        ChannelClosed \<Rightarrow>
          (case cleanup closed rooms ws room of (rooms', t, e) \<Rightarrow> (rooms', room, t, True))
      | Text message \<Rightarrow>
          (case handle_message closed rooms ws room message of
             (rooms1, room1, t1, Continue) \<Rightarrow> (rooms1, room1, t1, False)
           | (rooms1, room1, t1, c) \<Rightarrow>
               (case cleanup closed rooms1 ws room1 of
                  (rooms2, t2, e) \<Rightarrow> (rooms2, room1, t1 @ t2, True))))"

text \<open>
  The whole coroutine on one connection whose channel yields the frames \<open>msgs\<close> and then
  closes, no other handler running in between. The local \<^verbatim>\<open>room\<close> starts as
  \<^verbatim>\<open>None\<close>.
\<close>

fun message_loop ::
  "conn set \<Rightarrow> registry \<Rightarrow> conn \<Rightarrow> json \<Rightarrow> json option list
     \<Rightarrow> registry \<times> json \<times> send_event list" where
  "message_loop closed rooms ws room [] =
     (case handle_frame closed rooms ws room ChannelClosed of
        (rooms', room', t, fin) \<Rightarrow> (rooms', room', t))"
| "message_loop closed rooms ws room (m # ms) =
     (case handle_frame closed rooms ws room (Text m) of
        (rooms', room', t, True) \<Rightarrow> (rooms', room', t)
      | (rooms', room', t, False) \<Rightarrow>
          (case message_loop closed rooms' ws room' ms of
             (rooms'', room'', t') \<Rightarrow> (rooms'', room'', t @ t')))"

definition handle_client ::
  "conn set \<Rightarrow> registry \<Rightarrow> conn \<Rightarrow> json option list \<Rightarrow> registry \<times> json \<times> send_event list" where
  "handle_client closed rooms ws msgs = message_loop closed rooms ws JNull msgs"

section \<open>The server: many handlers on one registry\<close>

text \<open>
  All handlers run on one event loop and share \<^verbatim>\<open>self.rooms\<close>. A handler gives up
  control only at an \<^verbatim>\<open>await\<close>: waiting for the next frame, or inside a send. The
  loop body changes the registry before its first send and never after it, and so does
  the \<^verbatim>\<open>finally\<close> block; between the two, other handlers may run (the body's sends
  come before the \<^verbatim>\<open>finally\<close> block). So the registries other handlers can see are
  the one a loop body leaves and the one a \<^verbatim>\<open>finally\<close> block leaves, and the server
  is modelled with these two kinds of steps.

  A handler is waiting for a frame (\<open>Running\<close>), has left the loop with its
  \<^verbatim>\<open>finally\<close> block still to run (\<open>Exiting\<close>), or has returned. The state is the
  registry, every handler's local \<^verbatim>\<open>room\<close> and its phase. An input names the handler
  that runs next, what its channel yields (read only by a handler waiting for a frame)
  and which channels are closed meanwhile.
\<close>

datatype phase = Running | Exiting | Returned

record server =
  rooms :: registry
  local_room :: "conn \<Rightarrow> json"
  phase :: "conn \<Rightarrow> phase"

definition init :: server where
  "init = \<lparr>rooms = Map.empty, local_room = (\<lambda>c. JNull), phase = (\<lambda>c. Running)\<rparr>"

definition run_finally :: "server \<Rightarrow> conn set \<Rightarrow> conn \<Rightarrow> server \<times> send_event list" where
  "run_finally s closed ws =
     (case cleanup closed (rooms s) ws (local_room s ws) of
        (rooms', t, e) \<Rightarrow> (s\<lparr>rooms := rooms', phase := (phase s)(ws := Returned)\<rparr>, t))"

definition step :: "server \<Rightarrow> conn set \<times> conn \<times> frame \<Rightarrow> server \<times> send_event list" where
  "step s inp =
     (case inp of (closed, ws, fr) \<Rightarrow>
        (case phase s ws of
           Returned \<Rightarrow> (s, [])
         | Exiting \<Rightarrow> run_finally s closed ws
         | Running \<Rightarrow>
             (case fr of
                ChannelClosed \<Rightarrow> run_finally s closed ws
              | Text message \<Rightarrow>
                  (case handle_message closed (rooms s) ws (local_room s ws) message of
                     (rooms', room', t, c) \<Rightarrow>
                       (\<lparr>rooms = rooms',
                         local_room = (local_room s)(ws := room'),
                         phase = (phase s)(ws := if c = Continue then Running else Exiting)\<rparr>,
                        t)))))"

fun run :: "server \<Rightarrow> (conn set \<times> conn \<times> frame) list \<Rightarrow> server \<times> send_event list" where
  "run s [] = (s, [])"
| "run s (inp # inps) =
     (case step s inp of (s', t) \<Rightarrow> (case run s' inps of (s'', t') \<Rightarrow> (s'', t @ t')))"

section \<open>Notions used by the properties\<close>

text \<open>The member set of a room: empty when the registry has no entry for the key.\<close>

definition members_of :: "registry \<Rightarrow> key \<Rightarrow> conn list" where
  "members_of rs k = (case rs k of None \<Rightarrow> [] | Some ms \<Rightarrow> ms)"

text \<open>
  The registry invariant: every entry is a set (no repetition) that is neither empty
  nor larger than two.
\<close>

definition registry_ok :: "registry \<Rightarrow> bool" where
  "registry_ok rs = (\<forall>k ms. rs k = Some ms \<longrightarrow> ms \<noteq> [] \<and> distinct ms \<and> length ms \<le> 2)"

fun target :: "send_event \<Rightarrow> conn" where
  "target (Sent c m) = c"
| "target (SendFailed c m) = c"

fun envelope :: "send_event \<Rightarrow> json" where
  "envelope (Sent c m) = m"
| "envelope (SendFailed c m) = m"

text \<open>The action of an envelope, read as a client does.\<close>

fun action_of :: "json \<Rightarrow> json" where
  "action_of (JObj kvs) = dict_get kvs ''action''"
| "action_of v = JNull"

text \<open>The envelopes a client sends (section 6 of the specification).\<close>

definition join_frame :: "json \<Rightarrow> frame" where
  "join_frame room = Text (Some (JObj [(''action'', JStr ''join''), (''room'', room)]))"

definition relay_frame :: "json \<Rightarrow> frame" where
  "relay_frame payload = Text (Some (JObj [(''action'', JStr ''relay''), (''payload'', payload)]))"

definition leave_frame :: frame where
  "leave_frame = Text (Some (JObj [(''action'', JStr ''leave'')]))"

text \<open>
  An error reply as every branch makes it: one send of the error envelope to the client,
  then \<^verbatim>\<open>continue\<close>, unless the send raises.
\<close>

definition error_reply :: "conn set \<Rightarrow> conn \<Rightarrow> string \<Rightarrow> send_event list \<times> control" where
  "error_reply closed ws s =
     ([if ws \<in> closed then SendFailed ws (error_envelope s) else Sent ws (error_envelope s)],
      if ws \<in> closed then Raise ConnectionClosed else Continue)"

text \<open>
  The four places where the loop body answers with an error, each with the condition
  the source tests there: \<open>rs\<close> is the registry, \<open>room\<close> the handler's local room and
  \<open>data\<close> the decoded envelope.
\<close>

definition protocol_error :: "registry \<Rightarrow> json \<Rightarrow> (string \<times> json) list \<Rightarrow> string \<Rightarrow> bool" where
  "protocol_error rs room data s =
     ((dict_get data ''action'' = JStr ''join'' \<and> \<not> truthy (dict_get data ''room'') \<and>
       s = ''Missing room'') \<or>
      (dict_get data ''action'' = JStr ''join'' \<and> truthy (dict_get data ''room'') \<and>
       (\<exists>k ms. dict_key (dict_get data ''room'') = Some k \<and> rs k = Some ms \<and> 2 \<le> length ms) \<and>
       s = ''Room is full (max 2 peers)'') \<or>
      (dict_get data ''action'' = JStr ''relay'' \<and>
       (\<not> truthy room \<or> (\<exists>k. dict_key room = Some k \<and> rs k = None)) \<and>
       s = ''Not in a room'') \<or>
      (dict_get data ''action'' = JStr ''relay'' \<and> truthy room \<and>
       (\<exists>k ms. dict_key room = Some k \<and> rs k = Some ms) \<and>
       \<not> truthy (dict_get data ''payload'') \<and>
       s = ''Missing payload''))"

section \<open>The registry invariant\<close>

lemma registry_ok_empty: "registry_ok Map.empty"
  by (simp add: registry_ok_def)

lemma registry_ok_upd:
  "registry_ok rs \<Longrightarrow> ms \<noteq> [] \<Longrightarrow> distinct ms \<Longrightarrow> length ms \<le> 2 \<Longrightarrow> registry_ok (rs(k \<mapsto> ms))"
  by (simp add: registry_ok_def)

lemma registry_ok_del: "registry_ok rs \<Longrightarrow> registry_ok (rs(k := None))"
  by (simp add: registry_ok_def)

lemma length_insert_le:
  "distinct ms \<Longrightarrow> length ms < 2 \<Longrightarrow>
     List.insert ws ms \<noteq> [] \<and> distinct (List.insert ws ms) \<and> length (List.insert ws ms) \<le> 2"
  by (auto simp: List.insert_def)

lemma reply_continue_rooms:
  "reply_continue closed rs ws room m = (rs', room', t, c) \<Longrightarrow> rs' = rs \<and> room' = room"
  by (auto simp: reply_continue_def split: prod.splits)

lemma handle_join_ok:
  assumes "registry_ok rs" and "handle_join closed rs ws room = (rs', room', t, c)"
  shows "registry_ok rs'"
proof (cases "truthy room")
  case False
  with assms show ?thesis by (auto simp: handle_join_def dest: reply_continue_rooms)
next
  case True
  show ?thesis
  proof (cases "dict_key room")
    case None
    with True assms show ?thesis by (simp add: handle_join_def)
  next
    case (Some k)
    show ?thesis
    proof (cases "rs k")
      case None
      have "registry_ok (rs(k \<mapsto> [ws]))" using assms(1) by (simp add: registry_ok_upd)
      with True Some None assms(2) show ?thesis
        by (auto simp: handle_join_def Let_def split: prod.splits bool.splits)
    next
      case (Some ms)
      note ms = this
      show ?thesis
      proof (cases "length ms \<ge> 2")
        case True
        with \<open>truthy room\<close> \<open>dict_key room = Some k\<close> ms assms show ?thesis
          by (auto simp: handle_join_def dest: reply_continue_rooms)
      next
        case False
        from assms(1) ms have "distinct ms" by (simp add: registry_ok_def)
        with False have "registry_ok (rs(k \<mapsto> List.insert ws ms))"
          using assms(1) length_insert_le[of ms ws] by (intro registry_ok_upd) auto
        with False \<open>truthy room\<close> \<open>dict_key room = Some k\<close> ms assms(2) show ?thesis
          by (auto simp: handle_join_def Let_def split: prod.splits bool.splits)
      qed
    qed
  qed
qed

lemma handle_relay_rooms:
  "handle_relay closed rs ws room data = (rs', room', t, c) \<Longrightarrow> rs' = rs \<and> room' = room"
  by (auto simp: handle_relay_def Let_def split: if_splits option.splits prod.splits
           dest: reply_continue_rooms)

lemma removeAll_ok:
  "distinct ms \<Longrightarrow> length ms \<le> 2 \<Longrightarrow>
     distinct (removeAll ws ms) \<and> length (removeAll ws ms) \<le> 2"
proof -
  assume d: "distinct ms" and l: "length ms \<le> 2"
  have "length (removeAll ws ms) \<le> length ms" by (rule length_removeAll_less_eq)
  with l have "length (removeAll ws ms) \<le> 2" by linarith
  with d show ?thesis by (simp add: distinct_removeAll)
qed

lemma registry_ok_discard:
  assumes "registry_ok rs" and "rs k = Some ms" and "removeAll ws ms \<noteq> []"
  shows "registry_ok (rs(k \<mapsto> removeAll ws ms))"
proof (rule registry_ok_upd)
  from assms(1,2) have "distinct ms" "length ms \<le> 2" by (simp_all add: registry_ok_def)
  then show "distinct (removeAll ws ms)" "length (removeAll ws ms) \<le> 2"
    using removeAll_ok[of ms ws] by simp_all
qed (use assms in simp_all)

lemma handle_leave_ok:
  assumes "registry_ok rs" and "handle_leave closed rs ws room = (rs', room', t, c)"
  shows "registry_ok rs'"
  using assms
  by (auto simp: handle_leave_def Let_def split: if_splits option.splits prod.splits
           intro: registry_ok_del registry_ok_discard)

lemma cleanup_ok:
  assumes "registry_ok rs" and "cleanup closed rs ws room = (rs', t, e)"
  shows "registry_ok rs'"
  using assms
  by (auto simp: cleanup_def Let_def split: if_splits option.splits prod.splits
           intro: registry_ok_del registry_ok_discard)

lemma handle_message_ok:
  assumes "registry_ok rs" and "handle_message closed rs ws room msg = (rs', room', t, c)"
  shows "registry_ok rs'"
  using assms
  by (auto simp: handle_message_def Let_def split: option.splits json.splits if_splits
           dest: handle_join_ok handle_leave_ok handle_relay_rooms)

lemma handle_frame_ok:
  assumes "registry_ok rs" and "handle_frame closed rs ws room fr = (rs', room', t, fin)"
  shows "registry_ok rs'"
  using assms
  by (auto simp: handle_frame_def split: frame.splits prod.splits control.splits
           dest: handle_message_ok cleanup_ok)

lemma run_finally_ok:
  assumes "registry_ok (rooms s)" and "run_finally s closed ws = (s', t)"
  shows "registry_ok (rooms s')"
  using assms
  by (auto simp: run_finally_def split: prod.splits dest: cleanup_ok)

lemma step_ok:
  assumes "registry_ok (rooms s)" and "step s inp = (s', t)"
  shows "registry_ok (rooms s')"
  using assms
  by (auto simp: step_def split: prod.splits phase.splits frame.splits
           dest: handle_message_ok run_finally_ok)

lemma run_ok:
  "registry_ok (rooms s) \<Longrightarrow> registry_ok (rooms (fst (run s inps)))"
proof (induction inps arbitrary: s)
  case Nil
  then show ?case by simp
next
  case (Cons inp inps)
  obtain s' t where st: "step s inp = (s', t)" by (cases "step s inp")
  with Cons.prems have "registry_ok (rooms s')" by (rule step_ok)
  then have "registry_ok (rooms (fst (run s' inps)))" by (rule Cons.IH)
  with st show ?case by (simp add: case_prod_beta)
qed

lemma reachable_ok: "registry_ok (rooms (fst (run init inps)))"
  by (rule run_ok) (simp add: init_def registry_ok_empty)

lemmas eval_defs = init_def step_def run_finally_def handle_frame_def handle_message_def handle_join_def
  handle_relay_def handle_leave_def cleanup_def reply_continue_def send_each_suppressed_def
  dict_get_def join_frame_def relay_frame_def leave_frame_def Let_def
  error_envelope_def joined_envelope_def peer_joined_envelope_def relayed_envelope_def
  peer_left_envelope_def

section \<open>Room capacity\<close>

lemma full_join:
  assumes "truthy room" "dict_key room = Some k" "rs k = Some ms" "2 \<le> length ms"
  shows "handle_join closed rs ws room =
         (rs, room,
          [if ws \<in> closed then SendFailed ws (error_envelope ''Room is full (max 2 peers)'')
           else Sent ws (error_envelope ''Room is full (max 2 peers)'')],
          if ws \<in> closed then Raise ConnectionClosed else Continue)"
  using assms by (simp add: handle_join_def reply_continue_def)

text \<open>
  Claim C1. In every state the server can reach, each room of the registry has at most
  two members. A join envelope for a room that already has two members leaves the
  registry as it was and makes exactly one send, the error
  \<^verbatim>\<open>Room is full (max 2 peers)\<close> to the joining connection; the loop continues when
  that send succeeds.
\<close>

theorem room_capacity:
  "(\<forall>inps k ms. rooms (fst (run init inps)) k = Some ms \<longrightarrow> distinct ms \<and> length ms \<le> 2) \<and>
   (\<forall>closed rs ws room data k ms.
      dict_get data ''action'' = JStr ''join'' \<and> dict_get data ''room'' = room \<and>
      truthy room \<and> dict_key room = Some k \<and> rs k = Some ms \<and> 2 \<le> length ms \<longrightarrow>
      handle_message closed rs ws old (Some (JObj data)) =
        (rs, room,
         [if ws \<in> closed then SendFailed ws (error_envelope ''Room is full (max 2 peers)'')
          else Sent ws (error_envelope ''Room is full (max 2 peers)'')],
         if ws \<in> closed then Raise ConnectionClosed else Continue))"
proof (intro conjI allI impI)
  fix inps k ms
  assume "rooms (fst (run init inps)) k = Some ms"
  with reachable_ok[of inps] show "distinct ms" "length ms \<le> 2"
    by (simp_all add: registry_ok_def)
next
  fix closed ws room data k and rs :: registry and ms :: "conn list"
  assume h: "dict_get data ''action'' = JStr ''join'' \<and> dict_get data ''room'' = room \<and>
      truthy room \<and> dict_key room = Some k \<and> rs k = Some ms \<and> 2 \<le> length ms"
  then have "handle_message closed rs ws old (Some (JObj data)) = handle_join closed rs ws room"
    by (simp add: handle_message_def)
  with h show "handle_message closed rs ws old (Some (JObj data)) =
        (rs, room,
         [if ws \<in> closed then SendFailed ws (error_envelope ''Room is full (max 2 peers)'')
          else Sent ws (error_envelope ''Room is full (max 2 peers)'')],
         if ws \<in> closed then Raise ConnectionClosed else Continue)"
    using full_join[of room k rs ms closed ws] by simp
qed

theorem room_capacity_witness:
  "rooms (fst (run init [({}, 1, join_frame (JStr ''r1'')), ({}, 2, join_frame (JStr ''r1'')),
                         ({}, 3, join_frame (JStr ''r1''))])) (KStr ''r1'') = Some [2, 1] \<and>
   distinct [2, 1 :: conn] \<and> length [2, 1 :: conn] \<le> 2 \<and>
   handle_message {} [KStr ''r1'' \<mapsto> [2, 1]] 3 JNull
       (Some (JObj [(''action'', JStr ''join''), (''room'', JStr ''r1'')])) =
     ([KStr ''r1'' \<mapsto> [2, 1]], JStr ''r1'',
      [Sent 3 (error_envelope ''Room is full (max 2 peers)'')], Continue)"
proof -
  let ?inps = "[({}, 1, join_frame (JStr ''r1'')), ({}, 2, join_frame (JStr ''r1'')),
                ({}, 3 :: conn, join_frame (JStr ''r1''))]"
  let ?data = "[(''action'', JStr ''join''), (''room'', JStr ''r1'')]"
  let ?rs = "[KStr ''r1'' \<mapsto> [2, 1 :: conn]]"
  have r: "rooms (fst (run init ?inps)) (KStr ''r1'') = Some [2, 1]"
    by (simp add: eval_defs)
  have cap: "distinct [2, 1 :: conn] \<and> length [2, 1 :: conn] \<le> 2"
    using room_capacity r by blast
  have pre: "dict_get ?data ''action'' = JStr ''join'' \<and> dict_get ?data ''room'' = JStr ''r1'' \<and>
      truthy (JStr ''r1'') \<and> dict_key (JStr ''r1'') = Some (KStr ''r1'') \<and>
      ?rs (KStr ''r1'') = Some [2, 1] \<and> 2 \<le> length [2, 1 :: conn]"
    by (simp add: dict_get_def)
  have "handle_message {} ?rs 3 JNull (Some (JObj ?data)) =
        (?rs, JStr ''r1'',
         [if (3 :: conn) \<in> {} then SendFailed 3 (error_envelope ''Room is full (max 2 peers)'')
          else Sent 3 (error_envelope ''Room is full (max 2 peers)'')],
         if (3 :: conn) \<in> {} then Raise ConnectionClosed else Continue)"
    using room_capacity pre by blast
  with r cap show ?thesis by simp
qed

section \<open>No empty rooms\<close>

lemma join_absent_room:
  assumes "truthy room" "dict_key room = Some k" "rs k = None"
  shows "fst (handle_join closed rs ws room) = rs(k \<mapsto> [ws])"
  using assms by (simp add: handle_join_def Let_def split: prod.splits bool.splits)

lemma leave_last_member:
  assumes "truthy room" "dict_key room = Some k" "rs k = Some ms" "removeAll ws ms = []"
  shows "handle_leave closed rs ws room = (rs(k := None), room, [], Break)"
    and "cleanup closed rs ws room = (rs(k := None), [], None)"
  using assms by (simp_all add: handle_leave_def cleanup_def)

text \<open>
  Claim C2. In every state the server can reach, a key is in the registry exactly when
  the room's member set is not empty. A join envelope for a room that has no entry
  leaves the entry holding the joining connection alone; a leave envelope, and the
  cleanup at channel closure, delete the entry when removing the connection leaves no
  member.
\<close>

theorem no_empty_rooms:
  "(\<forall>inps k. (k \<in> dom (rooms (fst (run init inps)))) =
               (members_of (rooms (fst (run init inps))) k \<noteq> [])) \<and>
   (\<forall>closed rs ws old data room k.
      dict_get data ''action'' = JStr ''join'' \<and> dict_get data ''room'' = room \<and>
      truthy room \<and> dict_key room = Some k \<and> rs k = None \<longrightarrow>
      fst (handle_message closed rs ws old (Some (JObj data))) = rs(k \<mapsto> [ws])) \<and>
   (\<forall>closed rs ws room data k ms.
      dict_get data ''action'' = JStr ''leave'' \<and>
      truthy room \<and> dict_key room = Some k \<and> rs k = Some ms \<and> removeAll ws ms = [] \<longrightarrow>
      handle_message closed rs ws room (Some (JObj data)) = (rs(k := None), room, [], Break)) \<and>
   (\<forall>closed rs ws room k ms.
      truthy room \<and> dict_key room = Some k \<and> rs k = Some ms \<and> removeAll ws ms = [] \<longrightarrow>
      handle_frame closed rs ws room ChannelClosed = (rs(k := None), room, [], True))"
proof (intro conjI allI impI)
  fix inps k
  show "(k \<in> dom (rooms (fst (run init inps)))) =
        (members_of (rooms (fst (run init inps))) k \<noteq> [])"
    using reachable_ok[of inps]
    by (auto simp: registry_ok_def members_of_def dom_def split: option.splits)
next
  fix closed ws old data room k and rs :: registry
  assume h: "dict_get data ''action'' = JStr ''join'' \<and> dict_get data ''room'' = room \<and>
      truthy room \<and> dict_key room = Some k \<and> rs k = None"
  then have "handle_message closed rs ws old (Some (JObj data)) = handle_join closed rs ws room"
    by (simp add: handle_message_def)
  with h show "fst (handle_message closed rs ws old (Some (JObj data))) = rs(k \<mapsto> [ws])"
    by (simp add: join_absent_room)
next
  fix closed ws room data k and rs :: registry and ms :: "conn list"
  assume h: "dict_get data ''action'' = JStr ''leave'' \<and>
      truthy room \<and> dict_key room = Some k \<and> rs k = Some ms \<and> removeAll ws ms = []"
  then have "handle_message closed rs ws room (Some (JObj data)) = handle_leave closed rs ws room"
    by (simp add: handle_message_def)
  with h show "handle_message closed rs ws room (Some (JObj data)) = (rs(k := None), room, [], Break)"
    by (simp add: leave_last_member(1))
next
  fix closed ws room k and rs :: registry and ms :: "conn list"
  assume h: "truthy room \<and> dict_key room = Some k \<and> rs k = Some ms \<and> removeAll ws ms = []"
  then have "cleanup closed rs ws room = (rs(k := None), [], None)"
    by (simp add: leave_last_member(2))
  then show "handle_frame closed rs ws room ChannelClosed = (rs(k := None), room, [], True)"
    by (simp add: handle_frame_def)
qed

theorem no_empty_rooms_witness:
  "KStr ''r1'' \<in> dom (rooms (fst (run init [({}, 1, join_frame (JStr ''r1''))]))) \<and>
   members_of (rooms (fst (run init [({}, 1, join_frame (JStr ''r1''))]))) (KStr ''r1'') = [1] \<and>
   KStr ''r1'' \<notin> dom (rooms (fst (run init [({}, 1, join_frame (JStr ''r1'')), ({}, 1, leave_frame)]))) \<and>
   fst (handle_message {} Map.empty 1 JNull
          (Some (JObj [(''action'', JStr ''join''), (''room'', JStr ''r1'')]))) = [KStr ''r1'' \<mapsto> [1]] \<and>
   handle_message {} [KStr ''r1'' \<mapsto> [1]] 1 (JStr ''r1'') (Some (JObj [(''action'', JStr ''leave'')])) =
     (Map.empty, JStr ''r1'', [], Break) \<and>
   handle_frame {} [KStr ''r1'' \<mapsto> [1]] 1 (JStr ''r1'') ChannelClosed = (Map.empty, JStr ''r1'', [], True)"
proof -
  let ?s1 = "fst (run init [({}, 1, join_frame (JStr ''r1''))])"
  let ?s2 = "fst (run init [({}, 1, join_frame (JStr ''r1'')), ({}, 1, leave_frame)])"
  let ?rs = "[KStr ''r1'' \<mapsto> [1 :: conn]]"
  have m1: "members_of (rooms ?s1) (KStr ''r1'') = [1]"
    by (simp add: eval_defs members_of_def)
  have m2: "members_of (rooms ?s2) (KStr ''r1'') = []"
    by (simp add: eval_defs members_of_def)
  have d1: "KStr ''r1'' \<in> dom (rooms ?s1)"
    using no_empty_rooms[THEN conjunct1, rule_format,
        where inps = "[({}, 1, join_frame (JStr ''r1''))]" and k = "KStr ''r1''"] m1
    by simp
  have d2: "KStr ''r1'' \<notin> dom (rooms ?s2)"
    using no_empty_rooms[THEN conjunct1, rule_format,
        where inps = "[({}, 1, join_frame (JStr ''r1'')), ({}, 1, leave_frame)]"
          and k = "KStr ''r1''"] m2
    by simp
  have j: "fst (handle_message {} Map.empty 1 JNull
          (Some (JObj [(''action'', JStr ''join''), (''room'', JStr ''r1'')]))) = Map.empty(KStr ''r1'' \<mapsto> [1])"
    by (rule no_empty_rooms[THEN conjunct2, THEN conjunct1, rule_format,
          where room = "JStr ''r1''"]) (simp add: dict_get_def)
  have l: "handle_message {} ?rs 1 (JStr ''r1'') (Some (JObj [(''action'', JStr ''leave'')])) =
     (?rs(KStr ''r1'' := None), JStr ''r1'', [], Break)"
    by (rule no_empty_rooms[THEN conjunct2, THEN conjunct2, THEN conjunct1, rule_format, where ms = "[1]"])
       (simp add: dict_get_def)
  have c: "handle_frame {} ?rs 1 (JStr ''r1'') ChannelClosed = (?rs(KStr ''r1'' := None), JStr ''r1'', [], True)"
    by (rule no_empty_rooms[THEN conjunct2, THEN conjunct2, THEN conjunct2, rule_format, where ms = "[1]"])
       simp
  from m1 d1 d2 j l c show ?thesis by simp
qed

section \<open>Joining\<close>

lemma send_each_open:
  "set ps \<inter> closed = {} \<Longrightarrow> send_each closed ps m = (map (\<lambda>p. Sent p m) ps, True)"
  by (induction ps) auto

lemma insert_short:
  "length ms < 2 \<Longrightarrow> length (List.insert ws ms) = (if ms = [] \<or> ws \<in> set ms then 1 else 2)"
  by (cases ms) (auto simp: List.insert_def)

lemma filter_insert_others:
  "filter (\<lambda>peer. peer \<noteq> ws) (List.insert ws ms) = removeAll ws ms"
  by (induction ms) (auto simp: List.insert_def)

lemma send_each_short:
  "length ps \<le> 1 \<Longrightarrow>
     send_each closed ps m =
       (map (\<lambda>p. if p \<in> closed then SendFailed p m else Sent p m) ps, set ps \<inter> closed = {})"
proof (cases ps)
  case Nil
  then show ?thesis by simp
next
  case (Cons p qs)
  assume "length ps \<le> 1"
  with Cons have "qs = []" by simp
  with Cons show ?thesis by simp
qed

lemma others_short: "length ms < 2 \<Longrightarrow> length (removeAll ws ms) \<le> 1"
proof -
  assume "length ms < 2"
  moreover have "length (removeAll ws ms) \<le> length ms" by (rule length_removeAll_less_eq)
  ultimately show ?thesis by linarith
qed

lemma handle_join_below_capacity:
  assumes "truthy room" and "dict_key room = Some k" and "length (members_of rs k) < 2"
  shows "handle_join closed rs ws room =
     (rs(k \<mapsto> List.insert ws (members_of rs k)), room,
      (if ws \<in> closed
       then [SendFailed ws (joined_envelope room (length (List.insert ws (members_of rs k))))]
       else Sent ws (joined_envelope room (length (List.insert ws (members_of rs k)))) #
              map (\<lambda>p. if p \<in> closed then SendFailed p (peer_joined_envelope room)
                        else Sent p (peer_joined_envelope room))
                (removeAll ws (members_of rs k))),
      if ws \<in> closed \<or> set (removeAll ws (members_of rs k)) \<inter> closed \<noteq> {}
      then Raise ConnectionClosed else Continue)"
proof -
  have s: "send_each closed (removeAll ws (members_of rs k)) m =
       (map (\<lambda>p. if p \<in> closed then SendFailed p m else Sent p m) (removeAll ws (members_of rs k)),
        set (removeAll ws (members_of rs k)) \<inter> closed = {})" for m
    by (rule send_each_short) (rule others_short[OF assms(3)])
  show ?thesis
  proof (cases "rs k")
    case None
    with assms show ?thesis
      by (simp add: handle_join_def members_of_def Let_def)
  next
    case (Some ms)
    with assms have l: "\<not> 2 \<le> length ms" and m: "members_of rs k = ms"
      by (simp_all add: members_of_def)
    from s m have s': "send_each closed (removeAll ws ms) m =
       (map (\<lambda>p. if p \<in> closed then SendFailed p m else Sent p m) (removeAll ws ms),
        set (removeAll ws ms) \<inter> closed = {})" for m
      by simp
    from assms(1,2) Some l show ?thesis
      unfolding m
      by (simp add: handle_join_def Let_def filter_insert_others s')
  qed
qed

text \<open>
  Claim C8. A join envelope for a room with fewer than two members adds the connection
  to the room and then sends, in this order: the joined envelope to the joining
  connection, its peers field being the number of members after the join (1 when the
  room was empty or held only the joining connection, 2 otherwise); then a peer_joined
  envelope for that room to every other member, of which there is at most one. An
  envelope reaches its channel when that channel is open. The sends of the loop body
  are not guarded: a send on a closed channel fails, nothing is sent after it and the
  loop body ends with \<^verbatim>\<open>ConnectionClosed\<close>.
\<close>

theorem join_notifications:
  assumes "dict_get data ''action'' = JStr ''join''" and "dict_get data ''room'' = room"
    and "truthy room" and "dict_key room = Some k" and "length (members_of rs k) < 2"
  shows "handle_message closed rs ws old (Some (JObj data)) =
     (rs(k \<mapsto> List.insert ws (members_of rs k)), room,
      (if ws \<in> closed
       then [SendFailed ws
               (JObj [(''action'', JStr ''joined''), (''room'', room),
                      (''peers'', JInt (int (length (List.insert ws (members_of rs k)))))])]
       else Sent ws
               (JObj [(''action'', JStr ''joined''), (''room'', room),
                      (''peers'', JInt (int (length (List.insert ws (members_of rs k)))))]) #
            map (\<lambda>p. if p \<in> closed
                      then SendFailed p (JObj [(''action'', JStr ''peer_joined''), (''room'', room)])
                      else Sent p (JObj [(''action'', JStr ''peer_joined''), (''room'', room)]))
              (removeAll ws (members_of rs k))),
      if ws \<in> closed \<or> set (removeAll ws (members_of rs k)) \<inter> closed \<noteq> {}
      then Raise ConnectionClosed else Continue) \<and>
     length (List.insert ws (members_of rs k)) =
       (if members_of rs k = [] \<or> ws \<in> set (members_of rs k) then 1 else 2) \<and>
     length (removeAll ws (members_of rs k)) \<le> 1"
proof -
  from assms(1,2)
  have "handle_message closed rs ws old (Some (JObj data)) = handle_join closed rs ws room"
    by (simp add: handle_message_def)
  with assms(3-5) have "handle_message closed rs ws old (Some (JObj data)) =
     (rs(k \<mapsto> List.insert ws (members_of rs k)), room,
      (if ws \<in> closed
       then [SendFailed ws
               (JObj [(''action'', JStr ''joined''), (''room'', room),
                      (''peers'', JInt (int (length (List.insert ws (members_of rs k)))))])]
       else Sent ws
               (JObj [(''action'', JStr ''joined''), (''room'', room),
                      (''peers'', JInt (int (length (List.insert ws (members_of rs k)))))]) #
            map (\<lambda>p. if p \<in> closed
                      then SendFailed p (JObj [(''action'', JStr ''peer_joined''), (''room'', room)])
                      else Sent p (JObj [(''action'', JStr ''peer_joined''), (''room'', room)]))
              (removeAll ws (members_of rs k))),
      if ws \<in> closed \<or> set (removeAll ws (members_of rs k)) \<inter> closed \<noteq> {}
      then Raise ConnectionClosed else Continue)"
    by (simp add: handle_join_below_capacity joined_envelope_def peer_joined_envelope_def)
  moreover from assms(5) have "length (List.insert ws (members_of rs k)) =
       (if members_of rs k = [] \<or> ws \<in> set (members_of rs k) then 1 else 2)"
    by (rule insert_short)
  moreover from assms(5) have "length (removeAll ws (members_of rs k)) \<le> 1"
    by (rule others_short)
  ultimately show ?thesis by (intro conjI)
qed

theorem join_notifications_witness:
  "handle_message {} Map.empty 1 JNull
       (Some (JObj [(''action'', JStr ''join''), (''room'', JStr ''r1'')])) =
     ([KStr ''r1'' \<mapsto> [1]], JStr ''r1'',
      [Sent 1 (JObj [(''action'', JStr ''joined''), (''room'', JStr ''r1''), (''peers'', JInt 1)])],
      Continue) \<and>
   handle_message {} [KStr ''r1'' \<mapsto> [1]] 2 JNull
       (Some (JObj [(''action'', JStr ''join''), (''room'', JStr ''r1'')])) =
     ([KStr ''r1'' \<mapsto> [2, 1]], JStr ''r1'',
      [Sent 2 (JObj [(''action'', JStr ''joined''), (''room'', JStr ''r1''), (''peers'', JInt 2)]),
       Sent 1 (JObj [(''action'', JStr ''peer_joined''), (''room'', JStr ''r1'')])],
      Continue) \<and>
   handle_message {1} [KStr ''r1'' \<mapsto> [1]] 2 JNull
       (Some (JObj [(''action'', JStr ''join''), (''room'', JStr ''r1'')])) =
     ([KStr ''r1'' \<mapsto> [2, 1]], JStr ''r1'',
      [Sent 2 (JObj [(''action'', JStr ''joined''), (''room'', JStr ''r1''), (''peers'', JInt 2)]),
       SendFailed 1 (JObj [(''action'', JStr ''peer_joined''), (''room'', JStr ''r1'')])],
      Raise ConnectionClosed)"
proof -
  let ?data = "[(''action'', JStr ''join''), (''room'', JStr ''r1'')]"
  have pre: "dict_get ?data ''action'' = JStr ''join''" "dict_get ?data ''room'' = JStr ''r1''"
    "truthy (JStr ''r1'')" "dict_key (JStr ''r1'') = Some (KStr ''r1'')"
    by (simp_all add: dict_get_def)
  have a: "length (members_of Map.empty (KStr ''r1'')) < 2"
    and b: "length (members_of [KStr ''r1'' \<mapsto> [1]] (KStr ''r1'')) < 2"
    by (simp_all add: members_of_def)
  from join_notifications[OF pre a, of "{}" 1 JNull]
       join_notifications[OF pre b, of "{}" 2 JNull]
       join_notifications[OF pre b, of "{1}" 2 JNull]
  show ?thesis
    by (simp add: members_of_def)
qed

text \<open>
  With the other member's channel closed, the joiner is answered with the joined
  envelope, the notification fails, and the \<^verbatim>\<open>finally\<close> block takes the joiner out
  of the room again.
\<close>

lemma join_with_closed_peer:
  "handle_frame {1} [KStr ''r1'' \<mapsto> [1]] 2 JNull (join_frame (JStr ''r1'')) =
     ([KStr ''r1'' \<mapsto> [1]], JStr ''r1'',
      [Sent 2 (JObj [(''action'', JStr ''joined''), (''room'', JStr ''r1''), (''peers'', JInt 2)]),
       SendFailed 1 (JObj [(''action'', JStr ''peer_joined''), (''room'', JStr ''r1'')]),
       SendFailed 1 (JObj [(''action'', JStr ''peer_left''), (''room'', JStr ''r1'')])],
      True)"
  by (simp add: eval_defs)

section \<open>Error replies\<close>

lemma send_each_events:
  "send_each closed ps m = (t, ok) \<Longrightarrow> ev \<in> set t \<Longrightarrow> envelope ev = m \<and> target ev \<in> set ps"
  by (induction ps arbitrary: t ok) (auto split: if_splits prod.splits)

lemma send_each_suppressed_events:
  "ev \<in> set (send_each_suppressed closed ps m) \<Longrightarrow> envelope ev = m \<and> target ev \<in> set ps"
  by (auto simp: send_each_suppressed_def)

lemma action_of_envelopes [simp]:
  "action_of (error_envelope s) = JStr ''error''"
  "action_of (joined_envelope room n) = JStr ''joined''"
  "action_of (peer_joined_envelope room) = JStr ''peer_joined''"
  "action_of (relayed_envelope room payload) = JStr ''relayed''"
  "action_of (peer_left_envelope room) = JStr ''peer_left''"
  by (simp_all add: error_envelope_def joined_envelope_def peer_joined_envelope_def
        relayed_envelope_def peer_left_envelope_def dict_get_def)

lemma reply_continue_event:
  "reply_continue closed rs ws room m =
     (rs, room, [if ws \<in> closed then SendFailed ws m else Sent ws m],
      if ws \<in> closed then Raise ConnectionClosed else Continue)"
  by (simp add: reply_continue_def)

lemma handle_join_error_event:
  assumes "handle_join closed rs ws room = (rs', room', t, c)"
    and "ev \<in> set t" and "action_of (envelope ev) = JStr ''error''"
  shows "rs' = rs \<and>
     ((\<not> truthy room \<and> (t, c) = error_reply closed ws ''Missing room'') \<or>
      (truthy room \<and> (\<exists>k ms. dict_key room = Some k \<and> rs k = Some ms \<and> 2 \<le> length ms) \<and>
       (t, c) = error_reply closed ws ''Room is full (max 2 peers)''))"
proof (cases "truthy room")
  case False
  with assms(1) show ?thesis
    by (auto simp: handle_join_def reply_continue_event error_reply_def)
next
  case True
  note tr = this
  show ?thesis
  proof (cases "dict_key room")
    case None
    with tr assms show ?thesis by (simp add: handle_join_def)
  next
    case (Some k)
    note k = this
    define ms where "ms = members_of rs k"
    show ?thesis
    proof (cases "2 \<le> length ms")
      case True
      then obtain ms' where "rs k = Some ms'" "ms' = ms"
        by (auto simp: ms_def members_of_def split: option.splits)
      with True tr k assms(1) show ?thesis
        by (auto simp: handle_join_def reply_continue_event error_reply_def)
    next
      case False
      have "\<forall>e \<in> set t. action_of (envelope e) \<noteq> JStr ''error''"
        using False tr k assms(1)
        by (cases "rs k")
           (auto simp: handle_join_def Let_def ms_def members_of_def
                 split: prod.splits bool.splits if_splits dest!: send_each_events)
      with assms(2,3) show ?thesis by blast
    qed
  qed
qed

lemma handle_relay_error_event:
  assumes "handle_relay closed rs ws room data = (rs', room', t, c)"
    and "ev \<in> set t" and "action_of (envelope ev) = JStr ''error''"
  shows "rs' = rs \<and>
     (((\<not> truthy room \<or> (\<exists>k. dict_key room = Some k \<and> rs k = None)) \<and>
        (t, c) = error_reply closed ws ''Not in a room'') \<or>
      (truthy room \<and> (\<exists>k ms. dict_key room = Some k \<and> rs k = Some ms) \<and>
        \<not> truthy (dict_get data ''payload'') \<and>
        (t, c) = error_reply closed ws ''Missing payload''))"
  using assms
  by (auto simp: handle_relay_def Let_def reply_continue_event error_reply_def
           split: if_splits option.splits prod.splits dest!: send_each_events)

lemma handle_leave_no_error:
  assumes "handle_leave closed rs ws room = (rs', room', t, c)" and "ev \<in> set t"
  shows "action_of (envelope ev) = JStr ''peer_left''"
  using assms
  by (auto simp: handle_leave_def Let_def
           split: if_splits option.splits prod.splits dest!: send_each_events)

lemma cleanup_no_error:
  assumes "cleanup closed rs ws room = (rs', t, e)" and "ev \<in> set t"
  shows "action_of (envelope ev) = JStr ''peer_left''"
  using assms
  by (auto simp: cleanup_def Let_def
           split: if_splits option.splits prod.splits dest!: send_each_suppressed_events)


lemma handle_message_error_event:
  assumes "handle_message closed rs ws room msg = (rs1, room1, t1, c)"
    and "ev \<in> set t1" and "action_of (envelope ev) = JStr ''error''"
  shows "rs1 = rs \<and>
     (\<exists>data s. msg = Some (JObj data) \<and> (t1, c) = error_reply closed ws s \<and>
        protocol_error rs room data s)"
proof -
  from assms(1,2) obtain data where msg: "msg = Some (JObj data)"
    by (auto simp: handle_message_def split: option.splits json.splits)
  let ?a = "dict_get data ''action''"
  consider (join) "?a = JStr ''join''" | (relay) "?a = JStr ''relay''"
    | (leave) "?a = JStr ''leave''"
    | (other) "?a \<noteq> JStr ''join''" "?a \<noteq> JStr ''relay''" "?a \<noteq> JStr ''leave''"
    by blast
  then show ?thesis
  proof cases
    case join
    with assms(1) msg
    have "handle_join closed rs ws (dict_get data ''room'') = (rs1, room1, t1, c)"
      by (simp add: handle_message_def)
    from handle_join_error_event[OF this assms(2,3)] msg join show ?thesis
      by (auto simp: protocol_error_def)
  next
    case relay
    with assms(1) msg have "handle_relay closed rs ws room data = (rs1, room1, t1, c)"
      by (simp add: handle_message_def)
    from handle_relay_error_event[OF this assms(2,3)] msg relay show ?thesis
      by (auto simp: protocol_error_def)
  next
    case leave
    with assms(1) msg have "handle_leave closed rs ws room = (rs1, room1, t1, c)"
      by (simp add: handle_message_def)
    from handle_leave_no_error[OF this assms(2)] assms(3) show ?thesis by simp
  next
    case other
    with assms(1,2) msg show ?thesis by (simp add: handle_message_def)
  qed
qed

lemma error_envelopes_only:
  assumes "handle_frame closed rs ws room fr = (rs', room', t, fin)"
    and "ev \<in> set t" and "action_of (envelope ev) = JStr ''error''"
  shows "target ev = ws \<and>
     (\<exists>data s. fr = Text (Some (JObj data)) \<and> envelope ev = error_envelope s \<and>
        protocol_error rs room data s) \<and>
     (ws \<notin> closed \<longrightarrow> t = [Sent ws (envelope ev)] \<and> \<not> fin \<and> rs' = rs)"
proof (cases fr)
  case ChannelClosed
  with assms(1) obtain e where "cleanup closed rs ws room = (rs', t, e)"
    by (auto simp: handle_frame_def split: prod.splits)
  from cleanup_no_error[OF this assms(2)] assms(3) show ?thesis by simp
next
  case (Text msg)
  obtain rs1 room1 t1 c where hm: "handle_message closed rs ws room msg = (rs1, room1, t1, c)"
    by (cases "handle_message closed rs ws room msg") auto
  obtain rs2 t2 e where cl: "cleanup closed rs1 ws room1 = (rs2, t2, e)"
    by (cases "cleanup closed rs1 ws room1") auto
  have t: "t = (if c = Continue then t1 else t1 @ t2)" and f: "fin = (c \<noteq> Continue)"
    and r: "rs' = (if c = Continue then rs1 else rs2)"
    using assms(1) Text hm cl by (auto simp: handle_frame_def split: control.splits)
  have "ev \<in> set t1"
  proof (rule ccontr)
    assume "ev \<notin> set t1"
    with assms(2) t have "ev \<in> set t2" by (auto split: if_splits)
    from cleanup_no_error[OF cl this] assms(3) show False by simp
  qed
  from handle_message_error_event[OF hm this assms(3)] \<open>ev \<in> set t1\<close>
  obtain data s where d: "msg = Some (JObj data)" "(t1, c) = error_reply closed ws s" "rs1 = rs"
    and cases: "protocol_error rs room data s"
    by blast
  from d(2) \<open>ev \<in> set t1\<close> have ev: "target ev = ws" "envelope ev = error_envelope s"
    by (auto simp: error_reply_def split: if_splits)
  from d(2) have open_case: "ws \<notin> closed \<longrightarrow> t1 = [Sent ws (error_envelope s)] \<and> c = Continue"
    by (simp add: error_reply_def)
  from ev Text d(1) cases
  have "\<exists>data s. fr = Text (Some (JObj data)) \<and> envelope ev = error_envelope s \<and>
        protocol_error rs room data s"
    by blast
  moreover have "ws \<notin> closed \<longrightarrow> t = [Sent ws (envelope ev)] \<and> \<not> fin \<and> rs' = rs"
    using open_case t f r d(3) ev(2) by auto
  ultimately show ?thesis using ev(1) by blast
qed


lemma error_replies_sent:
  "dict_get data ''action'' = JStr ''join'' \<Longrightarrow> \<not> truthy (dict_get data ''room'') \<Longrightarrow>
     handle_message closed rs ws room (Some (JObj data)) =
       (rs, dict_get data ''room'', fst (error_reply closed ws ''Missing room''),
        snd (error_reply closed ws ''Missing room''))"
  "dict_get data ''action'' = JStr ''join'' \<Longrightarrow> truthy (dict_get data ''room'') \<Longrightarrow>
     dict_key (dict_get data ''room'') = Some k \<Longrightarrow> rs k = Some ms \<Longrightarrow> 2 \<le> length ms \<Longrightarrow>
     handle_message closed rs ws room (Some (JObj data)) =
       (rs, dict_get data ''room'', fst (error_reply closed ws ''Room is full (max 2 peers)''),
        snd (error_reply closed ws ''Room is full (max 2 peers)''))"
  "dict_get data ''action'' = JStr ''relay'' \<Longrightarrow>
     \<not> truthy room \<or> (\<exists>k. dict_key room = Some k \<and> rs k = None) \<Longrightarrow>
     handle_message closed rs ws room (Some (JObj data)) =
       (rs, room, fst (error_reply closed ws ''Not in a room''),
        snd (error_reply closed ws ''Not in a room''))"
  "dict_get data ''action'' = JStr ''relay'' \<Longrightarrow> truthy room \<Longrightarrow>
     dict_key room = Some k \<Longrightarrow> rs k = Some ms \<Longrightarrow> \<not> truthy (dict_get data ''payload'') \<Longrightarrow>
     handle_message closed rs ws room (Some (JObj data)) =
       (rs, room, fst (error_reply closed ws ''Missing payload''),
        snd (error_reply closed ws ''Missing payload''))"
  by (auto simp: handle_message_def handle_join_def handle_relay_def reply_continue_def
        error_reply_def)

text \<open>
  Claim C9. The loop body answers each of the four protocol errors with one send to the
  client itself, an error envelope with exactly the string of the source, and continues
  when that send succeeds: \<^verbatim>\<open>Missing room\<close> for a join with a falsy room,
  \<^verbatim>\<open>Room is full (max 2 peers)\<close> for a join to a room with two members,
  \<^verbatim>\<open>Not in a room\<close> for a relay when the local room is falsy or not in the
  registry, \<^verbatim>\<open>Missing payload\<close> for a relay with a falsy payload; the registry is
  left as it was. Conversely, whatever a handler does with a frame, every envelope with
  action \<^verbatim>\<open>error\<close> among its sends is addressed to the handler's own connection and
  is one of these four under its condition; when the client's channel is open it is the
  only send, the handler has not returned and the registry is unchanged.
\<close>

theorem protocol_errors:
  "(dict_get data ''action'' = JStr ''join'' \<and> \<not> truthy (dict_get data ''room'') \<longrightarrow>
      handle_message closed rs ws room (Some (JObj data)) =
        (rs, dict_get data ''room'',
         [if ws \<in> closed
          then SendFailed ws (JObj [(''action'', JStr ''error''), (''error'', JStr ''Missing room'')])
          else Sent ws (JObj [(''action'', JStr ''error''), (''error'', JStr ''Missing room'')])],
         if ws \<in> closed then Raise ConnectionClosed else Continue)) \<and>
   (dict_get data ''action'' = JStr ''join'' \<and> truthy (dict_get data ''room'') \<and>
    dict_key (dict_get data ''room'') = Some k \<and> rs k = Some ms \<and> 2 \<le> length ms \<longrightarrow>
      handle_message closed rs ws room (Some (JObj data)) =
        (rs, dict_get data ''room'',
         [if ws \<in> closed
          then SendFailed ws
                 (JObj [(''action'', JStr ''error''), (''error'', JStr ''Room is full (max 2 peers)'')])
          else Sent ws
                 (JObj [(''action'', JStr ''error''), (''error'', JStr ''Room is full (max 2 peers)'')])],
         if ws \<in> closed then Raise ConnectionClosed else Continue)) \<and>
   (dict_get data ''action'' = JStr ''relay'' \<and>
    (\<not> truthy room \<or> (\<exists>k'. dict_key room = Some k' \<and> rs k' = None)) \<longrightarrow>
      handle_message closed rs ws room (Some (JObj data)) =
        (rs, room,
         [if ws \<in> closed
          then SendFailed ws (JObj [(''action'', JStr ''error''), (''error'', JStr ''Not in a room'')])
          else Sent ws (JObj [(''action'', JStr ''error''), (''error'', JStr ''Not in a room'')])],
         if ws \<in> closed then Raise ConnectionClosed else Continue)) \<and>
   (dict_get data ''action'' = JStr ''relay'' \<and> truthy room \<and>
    dict_key room = Some k \<and> rs k = Some ms \<and> \<not> truthy (dict_get data ''payload'') \<longrightarrow>
      handle_message closed rs ws room (Some (JObj data)) =
        (rs, room,
         [if ws \<in> closed
          then SendFailed ws (JObj [(''action'', JStr ''error''), (''error'', JStr ''Missing payload'')])
          else Sent ws (JObj [(''action'', JStr ''error''), (''error'', JStr ''Missing payload'')])],
         if ws \<in> closed then Raise ConnectionClosed else Continue)) \<and>
   (\<forall>fr rs' room' t fin ev.
      handle_frame closed rs ws room fr = (rs', room', t, fin) \<and> ev \<in> set t \<and>
      action_of (envelope ev) = JStr ''error'' \<longrightarrow>
        target ev = ws \<and>
        (\<exists>data' s. fr = Text (Some (JObj data')) \<and>
           envelope ev = JObj [(''action'', JStr ''error''), (''error'', JStr s)] \<and>
           protocol_error rs room data' s) \<and>
        (ws \<notin> closed \<longrightarrow> t = [Sent ws (envelope ev)] \<and> \<not> fin \<and> rs' = rs))"
proof (intro conjI allI impI; (elim conjE)?)
  assume "dict_get data ''action'' = JStr ''join''" "\<not> truthy (dict_get data ''room'')"
  then show "handle_message closed rs ws room (Some (JObj data)) =
        (rs, dict_get data ''room'',
         [if ws \<in> closed
          then SendFailed ws (JObj [(''action'', JStr ''error''), (''error'', JStr ''Missing room'')])
          else Sent ws (JObj [(''action'', JStr ''error''), (''error'', JStr ''Missing room'')])],
         if ws \<in> closed then Raise ConnectionClosed else Continue)"
    by (simp add: error_replies_sent(1) error_reply_def error_envelope_def)
next
  assume "dict_get data ''action'' = JStr ''join''" "truthy (dict_get data ''room'')"
    "dict_key (dict_get data ''room'') = Some k" "rs k = Some ms" "2 \<le> length ms"
  then show "handle_message closed rs ws room (Some (JObj data)) =
        (rs, dict_get data ''room'',
         [if ws \<in> closed
          then SendFailed ws
                 (JObj [(''action'', JStr ''error''), (''error'', JStr ''Room is full (max 2 peers)'')])
          else Sent ws
                 (JObj [(''action'', JStr ''error''), (''error'', JStr ''Room is full (max 2 peers)'')])],
         if ws \<in> closed then Raise ConnectionClosed else Continue)"
    by (simp add: error_replies_sent(2) error_reply_def error_envelope_def)
next
  assume "dict_get data ''action'' = JStr ''relay''"
    "\<not> truthy room \<or> (\<exists>k'. dict_key room = Some k' \<and> rs k' = None)"
  then show "handle_message closed rs ws room (Some (JObj data)) =
        (rs, room,
         [if ws \<in> closed
          then SendFailed ws (JObj [(''action'', JStr ''error''), (''error'', JStr ''Not in a room'')])
          else Sent ws (JObj [(''action'', JStr ''error''), (''error'', JStr ''Not in a room'')])],
         if ws \<in> closed then Raise ConnectionClosed else Continue)"
    by (simp add: error_replies_sent(3) error_reply_def error_envelope_def)
next
  assume "dict_get data ''action'' = JStr ''relay''" "truthy room"
    "dict_key room = Some k" "rs k = Some ms" "\<not> truthy (dict_get data ''payload'')"
  then show "handle_message closed rs ws room (Some (JObj data)) =
        (rs, room,
         [if ws \<in> closed
          then SendFailed ws (JObj [(''action'', JStr ''error''), (''error'', JStr ''Missing payload'')])
          else Sent ws (JObj [(''action'', JStr ''error''), (''error'', JStr ''Missing payload'')])],
         if ws \<in> closed then Raise ConnectionClosed else Continue)"
    by (simp add: error_replies_sent(4) error_reply_def error_envelope_def)
next
  fix fr rs' room' t fin ev
  assume hf: "handle_frame closed rs ws room fr = (rs', room', t, fin)"
    and ev: "ev \<in> set t" and act: "action_of (envelope ev) = JStr ''error''"
  from error_envelopes_only[OF hf ev act]
  show "target ev = ws"
    and "\<exists>data' s. fr = Text (Some (JObj data')) \<and>
           envelope ev = JObj [(''action'', JStr ''error''), (''error'', JStr s)] \<and>
           protocol_error rs room data' s"
    by (simp_all add: error_envelope_def)
  assume "ws \<notin> closed"
  with error_envelopes_only[OF hf ev act]
  show "t = [Sent ws (envelope ev)]" "\<not> fin" "rs' = rs"
    by simp_all
qed


theorem protocol_errors_witness:
  "handle_message {} Map.empty 1 JNull (Some (JObj [(''action'', JStr ''join'')])) =
     (Map.empty, JNull,
      [Sent 1 (JObj [(''action'', JStr ''error''), (''error'', JStr ''Missing room'')])],
      Continue) \<and>
   handle_message {} [KStr ''r1'' \<mapsto> [2, 1]] 3 JNull
       (Some (JObj [(''action'', JStr ''join''), (''room'', JStr ''r1'')])) =
     ([KStr ''r1'' \<mapsto> [2, 1]], JStr ''r1'',
      [Sent 3 (JObj [(''action'', JStr ''error''),
                     (''error'', JStr ''Room is full (max 2 peers)'')])],
      Continue) \<and>
   handle_message {} Map.empty 1 JNull
       (Some (JObj [(''action'', JStr ''relay''), (''payload'', JInt 5)])) =
     (Map.empty, JNull,
      [Sent 1 (JObj [(''action'', JStr ''error''), (''error'', JStr ''Not in a room'')])],
      Continue) \<and>
   handle_message {} [KStr ''r1'' \<mapsto> [2, 1]] 1 (JStr ''r1'')
       (Some (JObj [(''action'', JStr ''relay'')])) =
     ([KStr ''r1'' \<mapsto> [2, 1]], JStr ''r1'',
      [Sent 1 (JObj [(''action'', JStr ''error''), (''error'', JStr ''Missing payload'')])],
      Continue) \<and>
   handle_frame {} Map.empty 1 JNull (relay_frame (JInt 5)) =
     (Map.empty, JNull,
      [Sent 1 (JObj [(''action'', JStr ''error''), (''error'', JStr ''Not in a room'')])],
      False) \<and>
   (\<exists>data' s. relay_frame (JInt 5) = Text (Some (JObj data')) \<and>
      JObj [(''action'', JStr ''error''), (''error'', JStr ''Not in a room'')] =
        JObj [(''action'', JStr ''error''), (''error'', JStr s)] \<and>
      protocol_error Map.empty JNull data' s)"
proof -
  let ?full = "[KStr ''r1'' \<mapsto> [2, 1 :: conn]]"
  let ?nir = "Sent 1 (JObj [(''action'', JStr ''error''), (''error'', JStr ''Not in a room'')])"
  have w1: "handle_message {} Map.empty 1 JNull (Some (JObj [(''action'', JStr ''join'')])) =
     (Map.empty, JNull,
      [Sent 1 (JObj [(''action'', JStr ''error''), (''error'', JStr ''Missing room'')])],
      Continue)"
    using protocol_errors[where data = "[(''action'', JStr ''join'')]" and closed = "{}"
        and rs = "Map.empty :: registry" and ws = 1 and room = JNull, THEN conjunct1]
    by (simp add: dict_get_def)
  have w2: "handle_message {} ?full 3 JNull
       (Some (JObj [(''action'', JStr ''join''), (''room'', JStr ''r1'')])) =
     (?full, JStr ''r1'',
      [Sent 3 (JObj [(''action'', JStr ''error''),
                     (''error'', JStr ''Room is full (max 2 peers)'')])],
      Continue)"
    using protocol_errors[where data = "[(''action'', JStr ''join''), (''room'', JStr ''r1'')]"
        and closed = "{}" and rs = ?full and ws = 3 and room = JNull
        and k = "KStr ''r1''" and ms = "[2, 1]", THEN conjunct2, THEN conjunct1]
    by (simp add: dict_get_def)
  have w3: "handle_message {} Map.empty 1 JNull
       (Some (JObj [(''action'', JStr ''relay''), (''payload'', JInt 5)])) =
     (Map.empty, JNull, [?nir], Continue)"
    using protocol_errors[where data = "[(''action'', JStr ''relay''), (''payload'', JInt 5)]"
        and closed = "{}" and rs = "Map.empty :: registry" and ws = 1 and room = JNull,
        THEN conjunct2, THEN conjunct2, THEN conjunct1]
    by (simp add: dict_get_def)
  have w4: "handle_message {} ?full 1 (JStr ''r1'') (Some (JObj [(''action'', JStr ''relay'')])) =
     (?full, JStr ''r1'',
      [Sent 1 (JObj [(''action'', JStr ''error''), (''error'', JStr ''Missing payload'')])],
      Continue)"
    using protocol_errors[where data = "[(''action'', JStr ''relay'')]"
        and closed = "{}" and rs = ?full and ws = 1 and room = "JStr ''r1''"
        and k = "KStr ''r1''" and ms = "[2, 1]",
        THEN conjunct2, THEN conjunct2, THEN conjunct2, THEN conjunct1]
    by (simp add: dict_get_def)
  have hf: "handle_frame {} Map.empty 1 JNull (relay_frame (JInt 5)) =
     (Map.empty, JNull, [?nir], False)"
    using w3 by (simp add: handle_frame_def relay_frame_def)
  have "target ?nir = 1 \<and>
     (\<exists>data' s. relay_frame (JInt 5) = Text (Some (JObj data')) \<and>
        envelope ?nir = JObj [(''action'', JStr ''error''), (''error'', JStr s)] \<and>
        protocol_error Map.empty JNull data' s) \<and>
     (1 \<notin> ({} :: conn set) \<longrightarrow>
        [?nir] = [Sent 1 (envelope ?nir)] \<and> \<not> False \<and> Map.empty = (Map.empty :: registry))"
    by (rule protocol_errors[where closed = "{}" and rs = "Map.empty :: registry" and ws = 1
          and room = JNull, THEN conjunct2, THEN conjunct2, THEN conjunct2, THEN conjunct2,
          rule_format, where fr = "relay_frame (JInt 5)" and room' = JNull])
       (use hf in \<open>simp add: dict_get_def\<close>)
  with w1 w2 w3 w4 hf show ?thesis by simp
qed

section \<open>Falsy payloads\<close>

lemma falsy_values:
  "(\<not> truthy v) = (v \<in> {JNull, JBool False, JInt 0, JStr [], JArr [], JObj []})"
  by (cases v) auto

text \<open>
  Claim C10. A relay envelope from a connection whose local room is set and in the
  registry, with a payload field that is present and falsy, is answered by the error
  \<^verbatim>\<open>Missing payload\<close> to the sender alone (the loop continues when that send
  succeeds); no relayed envelope is sent and the registry stays as it was. The falsy
  values are \<^verbatim>\<open>null\<close>, \<^verbatim>\<open>false\<close>, \<^verbatim>\<open>0\<close>, the empty string, the empty array and the
  empty object.
\<close>

theorem falsy_payload_rejected:
  assumes "dict_get data ''action'' = JStr ''relay''"
    and "truthy room" and "dict_key room = Some k" and "rs k = Some ms"
    and "map_of data ''payload'' = Some v" and "\<not> truthy v"
  shows "v \<in> {JNull, JBool False, JInt 0, JStr [], JArr [], JObj []} \<and>
     handle_message closed rs ws room (Some (JObj data)) =
       (rs, room,
        [if ws \<in> closed then SendFailed ws (error_envelope ''Missing payload'')
         else Sent ws (error_envelope ''Missing payload'')],
        if ws \<in> closed then Raise ConnectionClosed else Continue)"
proof -
  from assms(6) have f: "v \<in> {JNull, JBool False, JInt 0, JStr [], JArr [], JObj []}"
    by (simp only: falsy_values)
  from assms(5) have p: "dict_get data ''payload'' = v" by (simp add: dict_get_def)
  from assms(1)
  have "handle_message closed rs ws room (Some (JObj data)) = handle_relay closed rs ws room data"
    by (simp add: handle_message_def)
  with f p assms(2-4,6) show ?thesis
    by (simp add: handle_relay_def reply_continue_def)
qed

theorem falsy_payload_rejected_witness:
  "handle_message {} [KStr ''r1'' \<mapsto> [2, 1]] 1 (JStr ''r1'')
       (Some (JObj [(''action'', JStr ''relay''), (''payload'', JInt 0)])) =
     ([KStr ''r1'' \<mapsto> [2, 1]], JStr ''r1'', [Sent 1 (error_envelope ''Missing payload'')], Continue) \<and>
   handle_message {} [KStr ''r1'' \<mapsto> [2, 1]] 1 (JStr ''r1'')
       (Some (JObj [(''action'', JStr ''relay''), (''payload'', JBool False)])) =
     ([KStr ''r1'' \<mapsto> [2, 1]], JStr ''r1'', [Sent 1 (error_envelope ''Missing payload'')], Continue) \<and>
   handle_message {} [KStr ''r1'' \<mapsto> [2, 1]] 1 (JStr ''r1'')
       (Some (JObj [(''action'', JStr ''relay''), (''payload'', JStr [])])) =
     ([KStr ''r1'' \<mapsto> [2, 1]], JStr ''r1'', [Sent 1 (error_envelope ''Missing payload'')], Continue) \<and>
   handle_message {} [KStr ''r1'' \<mapsto> [2, 1]] 1 (JStr ''r1'')
       (Some (JObj [(''action'', JStr ''relay''), (''payload'', JObj [])])) =
     ([KStr ''r1'' \<mapsto> [2, 1]], JStr ''r1'', [Sent 1 (error_envelope ''Missing payload'')], Continue) \<and>
   handle_message {} [KStr ''r1'' \<mapsto> [2, 1]] 1 (JStr ''r1'')
       (Some (JObj [(''action'', JStr ''relay''), (''payload'', JArr [])])) =
     ([KStr ''r1'' \<mapsto> [2, 1]], JStr ''r1'', [Sent 1 (error_envelope ''Missing payload'')], Continue)"
proof -
  have w: "handle_message {} [KStr ''r1'' \<mapsto> [2, 1]] 1 (JStr ''r1'')
       (Some (JObj [(''action'', JStr ''relay''), (''payload'', v)])) =
     ([KStr ''r1'' \<mapsto> [2, 1]], JStr ''r1'', [Sent 1 (error_envelope ''Missing payload'')], Continue)"
    if "\<not> truthy v" for v
    using that
      falsy_payload_rejected[of "[(''action'', JStr ''relay''), (''payload'', v)]"
        "JStr ''r1''" "KStr ''r1''" "[KStr ''r1'' \<mapsto> [2, 1]]" "[2, 1]" v "{}" 1]
    by (simp add: dict_get_def)
  show ?thesis
    by (intro conjI w) simp_all
qed


section \<open>The handler's local room\<close>

text \<open>
  The local \<^verbatim>\<open>room\<close> is assigned by every join envelope (line 29) and by nothing
  else. Claim C4 as stated (a joined handler keeps its room whatever arrives later)
  fails: a handler that has joined \<^verbatim>\<open>r1\<close> and then sends a join envelope for
  \<^verbatim>\<open>r2\<close> is answered with a joined envelope again, tracks \<^verbatim>\<open>r2\<close> from then on and
  stays a member of both rooms.
\<close>

theorem room_retained_counterexample:
  "snd (run init [({}, 1, join_frame (JStr ''r1''))]) =
     [Sent 1 (joined_envelope (JStr ''r1'') 1)] \<and>
   local_room (fst (run init [({}, 1, join_frame (JStr ''r1''))])) 1 = JStr ''r1'' \<and>
   snd (run init [({}, 1, join_frame (JStr ''r1'')), ({}, 1, join_frame (JStr ''r2''))]) =
     [Sent 1 (joined_envelope (JStr ''r1'') 1), Sent 1 (joined_envelope (JStr ''r2'') 1)] \<and>
   local_room (fst (run init [({}, 1, join_frame (JStr ''r1'')),
                              ({}, 1, join_frame (JStr ''r2''))])) 1 = JStr ''r2'' \<and>
   phase (fst (run init [({}, 1, join_frame (JStr ''r1'')),
                         ({}, 1, join_frame (JStr ''r2''))])) 1 = Running \<and>
   rooms (fst (run init [({}, 1, join_frame (JStr ''r1'')),
                         ({}, 1, join_frame (JStr ''r2''))])) =
     [KStr ''r1'' \<mapsto> [1], KStr ''r2'' \<mapsto> [1]]"
  by (simp add: eval_defs)

lemma joined_envelope_inject:
  "joined_envelope r n = joined_envelope r' n' \<Longrightarrow> r = r'"
  by (simp add: joined_envelope_def)

lemma handle_join_room: "handle_join closed rs ws room = (rs', room', t, c) \<Longrightarrow> room' = room"
  by (auto simp: handle_join_def Let_def reply_continue_event
           split: if_splits option.splits prod.splits bool.splits)

lemma handle_leave_room: "handle_leave closed rs ws room = (rs', room', t, c) \<Longrightarrow> room' = room"
  by (auto simp: handle_leave_def Let_def split: if_splits option.splits prod.splits)

lemma handle_join_envelopes:
  assumes "handle_join closed rs ws room = (rs', room', t, c)" and "e \<in> set t"
  shows "(\<exists>s. envelope e = error_envelope s) \<or> (\<exists>m. envelope e = joined_envelope room m) \<or>
         envelope e = peer_joined_envelope room"
proof (cases "truthy room")
  case False
  with assms show ?thesis
    by (auto simp: handle_join_def reply_continue_event split: if_splits)
next
  case True
  note tr = this
  show ?thesis
  proof (cases "dict_key room")
    case None
    with tr assms show ?thesis by (simp add: handle_join_def)
  next
    case (Some k)
    with tr assms show ?thesis
      by (cases "rs k")
         (auto simp: handle_join_def Let_def reply_continue_event
               split: prod.splits bool.splits if_splits dest!: send_each_events)
  qed
qed

lemma handle_join_joined:
  assumes "handle_join closed rs ws room = (rs', room', t, c)"
    and "Sent ws (joined_envelope r n) \<in> set t"
  shows "r = room"
proof -
  let ?e = "Sent ws (joined_envelope r n)"
  from handle_join_envelopes[OF assms]
  consider s where "joined_envelope r n = error_envelope s"
    | m where "joined_envelope r n = joined_envelope room m"
    | "joined_envelope r n = peer_joined_envelope room"
    by auto
  then show ?thesis
  proof cases
    case 1
    then have "action_of (joined_envelope r n) = action_of (error_envelope s)" by simp
    then show ?thesis by simp
  next
    case 2
    then show ?thesis by (rule joined_envelope_inject)
  next
    case 3
    then have "action_of (joined_envelope r n) = action_of (peer_joined_envelope room)" by simp
    then show ?thesis by simp
  qed
qed

lemma handle_relay_no_joined:
  assumes "handle_relay closed rs ws room data = (rs', room', t, c)" and "ev \<in> set t"
  shows "action_of (envelope ev) \<noteq> JStr ''joined''"
  using assms
  by (auto simp: handle_relay_def Let_def reply_continue_event
           split: if_splits option.splits prod.splits dest!: send_each_events)

text \<open>
  Claim C4, as amended. The local room of a handler is changed only by join envelopes:
  any other frame leaves it as it was. Whenever a frame is answered with a joined
  envelope, the local room is afterwards the room of that envelope, whatever it was
  before.
\<close>

theorem tracked_room_changes:
  assumes "handle_message closed rs ws room msg = (rs', room', t, c)"
  shows "((\<forall>data. msg = Some (JObj data) \<longrightarrow> dict_get data ''action'' \<noteq> JStr ''join'') \<longrightarrow>
            room' = room) \<and>
         (\<forall>r n. Sent ws (joined_envelope r n) \<in> set t \<longrightarrow> room' = r)"
proof (intro conjI impI allI)
  assume "\<forall>data. msg = Some (JObj data) \<longrightarrow> dict_get data ''action'' \<noteq> JStr ''join''"
  with assms show "room' = room"
    by (auto simp: handle_message_def Let_def split: option.splits json.splits if_splits
             dest: handle_relay_rooms handle_leave_room)
next
  fix r n
  assume j: "Sent ws (joined_envelope r n) \<in> set t"
  with assms obtain data where msg: "msg = Some (JObj data)"
    by (auto simp: handle_message_def split: option.splits json.splits)
  let ?a = "dict_get data ''action''"
  consider (join) "?a = JStr ''join''" | (relay) "?a = JStr ''relay''"
    | (leave) "?a = JStr ''leave''"
    | (other) "?a \<noteq> JStr ''join''" "?a \<noteq> JStr ''relay''" "?a \<noteq> JStr ''leave''"
    by blast
  then show "room' = r"
  proof cases
    case join
    with assms msg
    have h: "handle_join closed rs ws (dict_get data ''room'') = (rs', room', t, c)"
      by (simp add: handle_message_def)
    from handle_join_joined[OF h j] handle_join_room[OF h] show ?thesis by simp
  next
    case relay
    with assms msg have "handle_relay closed rs ws room data = (rs', room', t, c)"
      by (simp add: handle_message_def)
    from handle_relay_no_joined[OF this j] show ?thesis by simp
  next
    case leave
    with assms msg have "handle_leave closed rs ws room = (rs', room', t, c)"
      by (simp add: handle_message_def)
    from handle_leave_no_error[OF this j] show ?thesis by simp
  next
    case other
    with assms j msg show ?thesis by (simp add: handle_message_def)
  qed
qed

theorem tracked_room_changes_witness:
  "handle_message {} [KStr ''r1'' \<mapsto> [1]] 1 (JStr ''r1'')
      (Some (JObj [(''action'', JStr ''relay''), (''payload'', JInt 7)])) =
     ([KStr ''r1'' \<mapsto> [1]], JStr ''r1'', [], Continue) \<and>
   handle_message {} [KStr ''r1'' \<mapsto> [1]] 1 (JStr ''r1'')
      (Some (JObj [(''action'', JStr ''join''), (''room'', JStr ''r2'')])) =
     ([KStr ''r1'' \<mapsto> [1], KStr ''r2'' \<mapsto> [1]], JStr ''r2'',
      [Sent 1 (joined_envelope (JStr ''r2'') 1)], Continue)"
proof -
  let ?rs = "[KStr ''r1'' \<mapsto> [1 :: conn]]"
  let ?relay = "Some (JObj [(''action'', JStr ''relay''), (''payload'', JInt 7)])"
  let ?join = "Some (JObj [(''action'', JStr ''join''), (''room'', JStr ''r2'')])"
  obtain rs1 room1 t1 c1 where a: "handle_message {} ?rs 1 (JStr ''r1'') ?relay = (rs1, room1, t1, c1)"
    by (cases "handle_message {} ?rs 1 (JStr ''r1'') ?relay") auto
  have "room1 = JStr ''r1''"
    using tracked_room_changes[OF a] by (simp add: dict_get_def)
  moreover have "(rs1, t1, c1) = (?rs, [], Continue)"
    using a[symmetric] by (simp add: eval_defs)
  ultimately have A: "handle_message {} ?rs 1 (JStr ''r1'') ?relay = (?rs, JStr ''r1'', [], Continue)"
    using a by simp
  obtain rs2 room2 t2 c2 where b: "handle_message {} ?rs 1 (JStr ''r1'') ?join = (rs2, room2, t2, c2)"
    by (cases "handle_message {} ?rs 1 (JStr ''r1'') ?join") auto
  have bt: "(rs2, t2, c2) = (?rs(KStr ''r2'' \<mapsto> [1]), [Sent 1 (joined_envelope (JStr ''r2'') 1)], Continue)"
    using b[symmetric] by (simp add: eval_defs)
  then have "Sent 1 (joined_envelope (JStr ''r2'') 1) \<in> set t2" by simp
  with tracked_room_changes[OF b] have "room2 = JStr ''r2''" by blast
  with b bt have B: "handle_message {} ?rs 1 (JStr ''r1'') ?join =
     (?rs(KStr ''r2'' \<mapsto> [1]), JStr ''r2'', [Sent 1 (joined_envelope (JStr ''r2'') 1)], Continue)"
    by (simp add: joined_envelope_def)
  from A B show ?thesis by simp
qed

section \<open>Leaving\<close>

text \<open>
  Removing a connection that is not a member leaves the registry as it is, and leaving
  a room that has no entry does nothing at all. The \<^verbatim>\<open>finally\<close> block run for a
  connection that is not a member of a room that still has members sends each of them a
  peer_left envelope.
\<close>

lemma leave_absent_registry:
  assumes "rs k = Some ms" and "ws \<notin> set ms"
  shows "rs(k \<mapsto> removeAll ws ms) = rs"
  using assms by (auto simp: fun_upd_idem_iff)


lemma leave_absent_notifies:
  assumes "truthy room" and "dict_key room = Some k" and "rs k = Some ms"
    and "ws \<notin> set ms" and "ms \<noteq> []"
  shows "cleanup closed rs ws room =
           (rs, send_each_suppressed closed ms (peer_left_envelope room), None)"
proof -
  from assms(4) have "removeAll ws ms = ms" by simp
  moreover from assms(3) have "rs(k \<mapsto> ms) = rs" by (auto simp: fun_upd_idem_iff)
  ultimately show ?thesis using assms(1-3,5) by (simp add: cleanup_def)
qed

lemma leave_absent_room:
  assumes "truthy room" and "dict_key room = Some k" and "rs k = None"
  shows "handle_leave closed rs ws room = (rs, room, [], Break)"
    and "cleanup closed rs ws room = (rs, [], None)"
  using assms by (simp_all add: handle_leave_def cleanup_def)

text \<open>
  Claim C3. Leaving when the connection is already absent from the member set should
  send nothing. The source decides whether to notify by the size of the member set
  after \<^verbatim>\<open>discard\<close>, not by whether the connection was a member: with connections 1
  and 2 in \<^verbatim>\<open>r1\<close>, a leave envelope from 1 sends peer_left to 2, and the
  \<^verbatim>\<open>finally\<close> block, which runs after the \<^verbatim>\<open>break\<close> with the local room still
  set, sends peer_left to 2 a second time although 1 is absent by then. Both the leave
  branch and the \<^verbatim>\<open>finally\<close> block notify when called for an absent connection.
\<close>

theorem second_leave_notifies_again:
  "snd (run init [({}, 1, join_frame (JStr ''r1'')), ({}, 2, join_frame (JStr ''r1'')),
                  ({}, 1, leave_frame), ({}, 1, ChannelClosed)]) =
     [Sent 1 (joined_envelope (JStr ''r1'') 1),
      Sent 2 (joined_envelope (JStr ''r1'') 2),
      Sent 1 (peer_joined_envelope (JStr ''r1'')),
      Sent 2 (peer_left_envelope (JStr ''r1'')),
      Sent 2 (peer_left_envelope (JStr ''r1''))] \<and>
   1 \<notin> set [2 :: conn] \<and>
   handle_leave {} [KStr ''r1'' \<mapsto> [2]] 1 (JStr ''r1'') =
     ([KStr ''r1'' \<mapsto> [2]], JStr ''r1'', [Sent 2 (peer_left_envelope (JStr ''r1''))], Break) \<and>
   cleanup {} [KStr ''r1'' \<mapsto> [2]] 1 (JStr ''r1'') =
     ([KStr ''r1'' \<mapsto> [2]], [Sent 2 (peer_left_envelope (JStr ''r1''))], None)"
  by (simp add: eval_defs)

text \<open>
  When the channel closes with one other member left, that member is sent exactly one
  peer_left envelope and remains alone in the room; a failure of that send is dropped.
\<close>

lemma disconnect_with_peer:
  assumes "truthy room" and "dict_key room = Some k" and "rs k = Some ms"
    and "removeAll ws ms = [p]"
  shows "handle_frame closed rs ws room ChannelClosed =
     (rs(k \<mapsto> [p]), room,
      [if p \<in> closed then SendFailed p (peer_left_envelope room)
       else Sent p (peer_left_envelope room)], True)"
  using assms by (simp add: handle_frame_def cleanup_def send_each_suppressed_def)

text \<open>
  Claim C7. Leaving with a peer in the room should send that peer exactly one peer_left
  envelope. At channel closure the source does so; on a leave envelope it sends two,
  one from the leave branch and one from the \<^verbatim>\<open>finally\<close> block that follows the
  \<^verbatim>\<open>break\<close>.
\<close>

theorem explicit_leave_two_peer_left:
  "handle_frame {} [KStr ''r1'' \<mapsto> [2, 1]] 1 (JStr ''r1'') leave_frame =
     ([KStr ''r1'' \<mapsto> [2]], JStr ''r1'',
      [Sent 2 (peer_left_envelope (JStr ''r1'')), Sent 2 (peer_left_envelope (JStr ''r1''))], True) \<and>
   handle_frame {} [KStr ''r1'' \<mapsto> [2, 1]] 1 (JStr ''r1'') ChannelClosed =
     ([KStr ''r1'' \<mapsto> [2]], JStr ''r1'', [Sent 2 (peer_left_envelope (JStr ''r1''))], True) \<and>
   handle_client {} [KStr ''r1'' \<mapsto> [2]] 1
       [Some (JObj [(''action'', JStr ''join''), (''room'', JStr ''r1'')]),
        Some (JObj [(''action'', JStr ''leave'')])] =
     ([KStr ''r1'' \<mapsto> [2]], JStr ''r1'',
      [Sent 1 (joined_envelope (JStr ''r1'') 2),
       Sent 2 (peer_joined_envelope (JStr ''r1'')),
       Sent 2 (peer_left_envelope (JStr ''r1'')),
       Sent 2 (peer_left_envelope (JStr ''r1''))])"
  by (simp add: eval_defs handle_client_def)

section \<open>Relaying\<close>

text \<open>
  A relay by a member of the room, with all other channels open: the payload goes
  unchanged to the other member, of which there is at most one, and nothing is sent to
  the sender.
\<close>

lemma relay_by_member:
  assumes "dict_get data ''action'' = JStr ''relay''"
    and "truthy room" and "dict_key room = Some k" and "rs k = Some ms"
    and "truthy (dict_get data ''payload'')"
    and "ws \<in> set ms" and "distinct ms" and "length ms \<le> 2"
    and "set ms \<inter> closed \<subseteq> {ws}"
  shows "handle_message closed rs ws room (Some (JObj data)) =
     (rs, room,
      map (\<lambda>p. Sent p (relayed_envelope room (dict_get data ''payload''))) (removeAll ws ms),
      Continue)"
    and "length (removeAll ws ms) \<le> 1" and "ws \<notin> set (removeAll ws ms)"
proof -
  have o: "set (removeAll ws ms) \<inter> closed = {}" using assms(9) by auto
  have f: "filter (\<lambda>peer. peer \<noteq> ws) ms = removeAll ws ms"
    by (induction ms) auto
  from assms(1)
  have "handle_message closed rs ws room (Some (JObj data)) = handle_relay closed rs ws room data"
    by (simp add: handle_message_def)
  with assms(2-5) o show "handle_message closed rs ws room (Some (JObj data)) =
     (rs, room,
      map (\<lambda>p. Sent p (relayed_envelope room (dict_get data ''payload''))) (removeAll ws ms),
      Continue)"
    by (simp add: handle_relay_def Let_def f send_each_open)
  from assms(6,7) have "length (removeAll ws ms) < length ms"
    by (simp add: length_removeAll_less)
  with assms(8) show "length (removeAll ws ms) \<le> 1" by linarith
  show "ws \<notin> set (removeAll ws ms)" by simp
qed

text \<open>
  After a join rejected for a falsy room the local room is that falsy value, and a
  relay is answered with \<^verbatim>\<open>Not in a room\<close>.
\<close>

lemma missing_room_then_relay:
  assumes "\<not> truthy r" and "ws \<notin> closed"
  shows "handle_join closed rs ws r =
           (rs, r, [Sent ws (error_envelope ''Missing room'')], Continue)"
    and "handle_relay closed rs ws r data =
           (rs, r, [Sent ws (error_envelope ''Not in a room'')], Continue)"
  using assms by (simp_all add: handle_join_def handle_relay_def reply_continue_def)

text \<open>
  Claim C5. After a join that failed because the room is full, a relay envelope should
  be answered with \<^verbatim>\<open>Not in a room\<close>. The source has already assigned the local
  \<^verbatim>\<open>room\<close> when it rejects the join, and the relay branch only tests that the local
  room is in the registry: connection 3, rejected from \<^verbatim>\<open>r1\<close>, has its payload
  relayed to both members and gets no error.
\<close>

theorem rejected_joiner_relays:
  "snd (run init [({}, 1, join_frame (JStr ''r1'')), ({}, 2, join_frame (JStr ''r1'')),
                  ({}, 3, join_frame (JStr ''r1'')), ({}, 3, relay_frame (JStr ''x''))]) =
     [Sent 1 (joined_envelope (JStr ''r1'') 1),
      Sent 2 (joined_envelope (JStr ''r1'') 2),
      Sent 1 (peer_joined_envelope (JStr ''r1'')),
      Sent 3 (error_envelope ''Room is full (max 2 peers)''),
      Sent 2 (relayed_envelope (JStr ''r1'') (JStr ''x'')),
      Sent 1 (relayed_envelope (JStr ''r1'') (JStr ''x''))] \<and>
   rooms (fst (run init [({}, 1, join_frame (JStr ''r1'')), ({}, 2, join_frame (JStr ''r1'')),
                  ({}, 3, join_frame (JStr ''r1''))])) (KStr ''r1'') = Some [2, 1] \<and>
   local_room (fst (run init [({}, 1, join_frame (JStr ''r1'')), ({}, 2, join_frame (JStr ''r1'')),
                  ({}, 3, join_frame (JStr ''r1''))])) 3 = JStr ''r1''"
  by (simp add: eval_defs)

text \<open>
  Claim C6. A relay should make at most one delivery. For a sender that is not a
  member of the room its local \<^verbatim>\<open>room\<close> names, the source relays to every member:
  two deliveries for a full room.
\<close>

theorem outsider_relay_two_deliveries:
  "3 \<notin> set [2, 1 :: conn] \<and>
   handle_message {} [KStr ''r1'' \<mapsto> [2, 1]] 3 (JStr ''r1'')
       (Some (JObj [(''action'', JStr ''relay''), (''payload'', JStr ''x'')])) =
     ([KStr ''r1'' \<mapsto> [2, 1]], JStr ''r1'',
      [Sent 2 (relayed_envelope (JStr ''r1'') (JStr ''x'')),
       Sent 1 (relayed_envelope (JStr ''r1'') (JStr ''x''))], Continue)"
  by (simp add: eval_defs)

end
